theory Spec2Isabelle
  imports Main
begin

section \<open>Strings\<close>

text \<open>
  A string is the sequence of its character codes: UTF-16 code units for the strings of
  the web frontend, code points for the strings of the letter pipeline. Literals of the
  source that are plain ASCII are written with \<open>lit\<close>; a character outside ASCII is
  written as its code.
\<close>

type_synonym ustring = "nat list"

definition lit :: "string \<Rightarrow> ustring" where
  "lit s = map of_char s"

definition dquote :: nat where
  "dquote = 34"

text \<open>
  \<open>String.prototype.trim\<close> removes ECMAScript WhiteSpace and LineTerminator code
  units from both ends: TAB, LF, VT, FF, CR, SP, NBSP, U+1680, U+2000 to U+200A,
  U+2028, U+2029, U+202F, U+205F, U+3000 and U+FEFF.
\<close>

definition is_ws :: "nat \<Rightarrow> bool" where
  "is_ws c \<longleftrightarrow>
     (9 \<le> c \<and> c \<le> 13) \<or> c = 32 \<or> c = 160 \<or> c = 5760 \<or>
     (8192 \<le> c \<and> c \<le> 8202) \<or> c = 8232 \<or> c = 8233 \<or> c = 8239 \<or>
     c = 8287 \<or> c = 12288 \<or> c = 65279"

definition trim :: "ustring \<Rightarrow> ustring" where
  "trim s = rev (dropWhile is_ws (rev (dropWhile is_ws s)))"

text \<open>JavaScript truthiness of a value of type \<open>string | undefined\<close>.\<close>

fun truthy :: "ustring option \<Rightarrow> bool" where
  "truthy None = False"
| "truthy (Some s) = (s \<noteq> [])"

text \<open>
  The conversion of a string to a \<open>USVString\<close>, which \<open>FormData.append\<close> applies to
  its arguments: a surrogate code unit that is not part of a pair (a high surrogate
  followed by a low one) becomes U+FFFD.
\<close>

definition is_high_surrogate :: "nat \<Rightarrow> bool" where
  "is_high_surrogate c \<longleftrightarrow> 55296 \<le> c \<and> c \<le> 56319"

definition is_low_surrogate :: "nat \<Rightarrow> bool" where
  "is_low_surrogate c \<longleftrightarrow> 56320 \<le> c \<and> c \<le> 57343"

fun to_usv :: "ustring \<Rightarrow> ustring" where
  "to_usv [] = []"
| "to_usv [c] = [if is_high_surrogate c \<or> is_low_surrogate c then 65533 else c]"
| "to_usv (c # d # cs) =
     (if is_high_surrogate c \<and> is_low_surrogate d then c # d # to_usv cs
      else if is_high_surrogate c \<or> is_low_surrogate c then 65533 # to_usv (d # cs)
      else c # to_usv (d # cs))"


section \<open>The API base URL (lib/env.ts)\<close>

text \<open>The two variables of \<open>process.env\<close> that the frontend reads; \<open>None\<close> is unset.\<close>

record env =
  NEXT_PUBLIC_API_BASE_URL :: "ustring option"
  VERCEL :: "ustring option"

definition localhost_url :: ustring where
  "localhost_url = lit ''http://localhost:8000''"

definition railway_url :: ustring where
  "railway_url = lit ''https://cover-letter-ai-production.up.railway.app''"

text \<open>
  The older implementation:
  \<^verbatim>\<open>const raw = process.env.NEXT_PUBLIC_API_BASE_URL;
  return raw && raw.length > 0 ? raw : "http://localhost:8000";\<close>
\<close>

definition getApiBaseUrl_old :: "env \<Rightarrow> ustring" where
  "getApiBaseUrl_old e =
     (case NEXT_PUBLIC_API_BASE_URL e of
        None \<Rightarrow> localhost_url
      | Some raw \<Rightarrow> if truthy (Some raw) \<and> length raw > 0 then raw else localhost_url)"

text \<open>
  The current implementation trims the variable, and on Vercel falls back to the
  production API instead of localhost.
\<close>

definition getApiBaseUrl :: "env \<Rightarrow> ustring" where
  "getApiBaseUrl e =
     (let raw = map_option trim (NEXT_PUBLIC_API_BASE_URL e);
          isVercel = truthy (VERCEL e);
          fallback = (if isVercel then railway_url else localhost_url)
      in case raw of
           None \<Rightarrow> fallback
         | Some r \<Rightarrow> if truthy (Some r) \<and> length r > 0 then r else fallback)"

section \<open>The attachment filename (lib/contentDisposition.ts)\<close>

text \<open>
  The pattern \<^verbatim>\<open>/filename="([^"]+)"/i\<close> has no \<open>u\<close> flag, so a code unit matches a
  pattern character when both have the same canonical form: the upper-case mapping,
  except that a code unit of 128 or more never canonicalises to one below 128. For the
  ASCII characters of this pattern that is equality up to the case of \<open>a\<close> to \<open>z\<close>.
\<close>

definition canonicalize :: "nat \<Rightarrow> nat" where
  "canonicalize c = (if 97 \<le> c \<and> c \<le> 122 then c - 32 else c)"

text \<open>Match a literal at the start of the input, ignoring case; the rest is returned.\<close>

fun match_literal :: "ustring \<Rightarrow> ustring \<Rightarrow> ustring option" where
  "match_literal [] s = Some s"
| "match_literal (p # ps) [] = None"
| "match_literal (p # ps) (c # cs) =
     (if canonicalize c = canonicalize p then match_literal ps cs else None)"

definition filename_eq_quote :: ustring where
  "filename_eq_quote = lit ''filename='' @ [dquote]"

text \<open>
  A match that starts at the first character of the input: the literal, then the longest
  non-empty run of characters other than the quote (capture group 1), then a quote.
  A shorter run cannot help, as the character after it would not be a quote.
\<close>

definition match_here :: "ustring \<Rightarrow> ustring option" where
  "match_here s =
     (case match_literal filename_eq_quote s of
        None \<Rightarrow> None
      | Some rest \<Rightarrow>
          (let captured = takeWhile (\<lambda>c. c \<noteq> dquote) rest;
               remaining = dropWhile (\<lambda>c. c \<noteq> dquote) rest
           in if captured \<noteq> [] \<and> remaining \<noteq> [] then Some captured else None))"

text \<open>\<open>RegExp.prototype.exec\<close>: the leftmost start position that matches wins.\<close>

fun exec_filename :: "ustring \<Rightarrow> ustring option" where
  "exec_filename [] = match_here []"
| "exec_filename (c # cs) =
     (case match_here (c # cs) of
        Some captured \<Rightarrow> Some captured
      | None \<Rightarrow> exec_filename cs)"

definition parseFilenameFromContentDisposition :: "ustring option \<Rightarrow> ustring option" where
  "parseFilenameFromContentDisposition v =
     (case v of
        None \<Rightarrow> None
      | Some s \<Rightarrow>
          if \<not> truthy (Some s) then None
          else case exec_filename s of
                 None \<Rightarrow> None
               | Some captured \<Rightarrow> if truthy (Some captured) then Some captured else None)"


section \<open>The generator form (GeneratorForm)\<close>

datatype Language = De | En
datatype Tone = Professional | Friendly | Concise
datatype Length = Short | Medium | Long

fun language_value :: "Language \<Rightarrow> ustring" where
  "language_value De = lit ''de''"
| "language_value En = lit ''en''"

fun tone_value :: "Tone \<Rightarrow> ustring" where
  "tone_value Professional = lit ''professional''"
| "tone_value Friendly = lit ''friendly''"
| "tone_value Concise = lit ''concise''"

fun length_value :: "Length \<Rightarrow> ustring" where
  "length_value Short = lit ''short''"
| "length_value Medium = lit ''medium''"
| "length_value Long = lit ''long''"

datatype GenerateState =
  GenIdle
| GenLoading
| GenError ustring
| GenDone ustring ustring

datatype PreviewState =
  PrevIdle
| PrevLoading
| PrevError ustring

text \<open>The component's state: the memoized \<open>apiBaseUrl\<close>, and one field for each
  \<open>useState\<close> and the \<open>useRef\<close>.\<close>

record 'file form_state =
  apiBaseUrl :: ustring
  jobUrl :: ustring
  jobText :: ustring
  cvFile :: "'file option"
  language :: Language
  tone :: Tone
  length_opt :: Length
  targetRole :: ustring
  state :: GenerateState
  previewState :: PreviewState
  downloadUrlRef :: "ustring option"

text \<open>A \<open>FormData\<close>: its entries in the order they were appended.\<close>

datatype 'file form_value = FileEntry 'file | TextEntry ustring

type_synonym 'file form_data = "(string \<times> 'file form_value) list"

text \<open>\<open>form.append(name, value)\<close> with a string value.\<close>

definition append_text :: "string \<Rightarrow> ustring \<Rightarrow> 'file form_data \<Rightarrow> 'file form_data" where
  "append_text name v form = form @ [(name, TextEntry (to_usv v))]"

text \<open>
  \<open>new URL(path, base)\<close> is a parameter: it throws when the base does not parse
  (\<open>UrlThrew m\<close>, with \<open>m\<close> what \<open>getErrorMessage\<close> returns for the error), or gives the
  URL of the request.
\<close>

datatype url_result = UrlThrew ustring | UrlOk ustring

type_synonym url_constructor = "string \<Rightarrow> ustring \<Rightarrow> url_result"

text \<open>
  What \<open>fetchOk\<close> and the reading of the response come to, as the caller sees it.
  \<open>Threw m\<close>: \<open>fetchOk\<close> or the reading of the response threw an error for which
  \<open>getErrorMessage\<close> returns \<open>m\<close>. \<open>Responded h u\<close>: the response arrived with the
  \<open>Content-Disposition\<close> header \<open>h\<close> (\<open>None\<close> when absent), and \<open>u\<close> is the object URL
  created for its blob.
\<close>

datatype generate_outcome = Threw ustring | Responded "ustring option" ustring

text \<open>The server is a parameter: it maps the URL and the form of a request to an
  outcome.\<close>

type_synonym 'file generate_api = "ustring \<Rightarrow> 'file form_data \<Rightarrow> generate_outcome"

text \<open>
  The effects of one run of a handler: the requests it made (the URL and the form of
  each call of \<open>fetchOk\<close>), the object URLs it revoked, and the component's state after
  it.
\<close>

record 'file run =
  requests :: "(ustring \<times> 'file form_data) list"
  revoked :: "ustring list"
  after :: "'file form_state"

definition generate_form :: "'file form_state \<Rightarrow> 'file form_data" where
  "generate_form st =
     (let form = [];
          form = (case cvFile st of None \<Rightarrow> form | Some f \<Rightarrow> form @ [(''cv_pdf'', FileEntry f)]);
          form = (if length (trim (jobUrl st)) > 0
                  then append_text ''job_url'' (trim (jobUrl st)) form else form);
          form = (if length (trim (jobText st)) > 0
                  then append_text ''job_text'' (trim (jobText st)) form else form);
          form = append_text ''language'' (language_value (language st)) form;
          form = append_text ''tone'' (tone_value (tone st)) form;
          form = append_text ''length'' (length_value (length_opt st)) form;
          form = (if length (trim (targetRole st)) > 0
                  then append_text ''target_role'' (trim (targetRole st)) form else form)
      in form)"

definition default_filename :: ustring where
  "default_filename = lit ''Cover_Letter.docx''"

text \<open>
  \<open>onGenerate\<close>. Inside the \<open>try\<close> block the URL is constructed before \<open>fetchOk\<close> is
  called, so a base URL that does not parse ends in the error state without a request.
\<close>

definition onGenerate ::
  "url_constructor \<Rightarrow> 'file generate_api \<Rightarrow> 'file form_state \<Rightarrow> 'file run" where
  "onGenerate new_URL api st =
     (if length (trim (jobUrl st)) = 0 \<and> length (trim (jobText st)) = 0 then
        \<lparr>requests = [], revoked = [],
         after = st\<lparr>state := GenError (lit ''Please provide either a Job URL or Job Text.'')\<rparr>\<rparr>
      else
        let revoked_urls = (case state st of GenDone downloadUrl _ \<Rightarrow> [downloadUrl] | _ \<Rightarrow> []);
            form = generate_form st
        in case new_URL ''/v1/generate'' (apiBaseUrl st) of
             UrlThrew message \<Rightarrow>
               \<lparr>requests = [], revoked = revoked_urls,
                after = st\<lparr>state := GenError message\<rparr>\<rparr>
           | UrlOk url \<Rightarrow>
               (case api url form of
                  Threw message \<Rightarrow>
                    \<lparr>requests = [(url, form)], revoked = revoked_urls,
                     after = st\<lparr>state := GenError message\<rparr>\<rparr>
                | Responded header downloadUrl \<Rightarrow>
                    (let filename =
                           (case parseFilenameFromContentDisposition header of
                              Some name \<Rightarrow> name
                            | None \<Rightarrow> default_filename)
                     in \<lparr>requests = [(url, form)], revoked = revoked_urls,
                         after = st\<lparr>state := GenDone downloadUrl filename,
                                    downloadUrlRef := Some downloadUrl\<rparr>\<rparr>)))"








section \<open>The letter pipeline\<close>

text \<open>
  The request handler, the generator, the sanitizer and the renderer run on the server
  (\<open>apps/api\<close>); the definitions of this section follow the specification's
  description of them.
\<close>

text \<open>Modelled from the spec: the errors of the taxonomy that the properties below
  meet (the error classes of the API are missing).\<close>

datatype pipeline_error = ValidationError | GenerationError | RenderError

subsection \<open>Job source\<close>

text \<open>Modelled from the spec: the tagged union of the data model (the request model of
  the API is missing).\<close>

datatype JobSource = Url ustring | Text ustring



subsection \<open>Letter content\<close>

text \<open>Modelled from the spec: the structured output of generation (the Pydantic model
  is missing).\<close>

record LetterContent =
  date :: ustring
  recipientBlock :: "ustring list"
  roleTitle :: ustring
  company :: ustring
  subject :: ustring
  salutation :: ustring
  bodyParagraphs :: "ustring list"
  closing :: ustring
  signatureName :: ustring

subsection \<open>Generation with one retry\<close>

text \<open>Modelled from the spec: what one call of the structured-generation service comes
  to (\<open>llm_letter.py\<close> is missing): a parsed letter, a response cut off by the token
  budget, or a response that does not parse for another reason.\<close>

datatype parse_outcome = Parsed LetterContent | Truncated | Unparseable

text \<open>Modelled from the spec: the extra headroom of the retry (\<open>llm_letter.py\<close> is
  missing). The retry's budget is larger than the first one, so the headroom is a
  positive number of tokens.\<close>

typedef headroom = "{n::nat. 0 < n}"
  by (rule exI [of _ 1]) simp

text \<open>Modelled from the spec: the token budgets, one for each length, and the headroom
  of the retry; their values are not given and stay parameters.\<close>

record generator_config =
  budget_short :: nat
  budget_medium :: nat
  budget_long :: nat
  retry_headroom :: headroom

text \<open>Modelled from the spec: the token budget selected by the length.\<close>

fun token_budget :: "generator_config \<Rightarrow> Length \<Rightarrow> nat" where
  "token_budget cfg Short = budget_short cfg"
| "token_budget cfg Medium = budget_medium cfg"
| "token_budget cfg Long = budget_long cfg"

text \<open>Modelled from the spec: the larger budget of a retry.\<close>

definition retry_budget :: "generator_config \<Rightarrow> nat \<Rightarrow> nat" where
  "retry_budget cfg budget = budget + Rep_headroom (retry_headroom cfg)"

text \<open>Modelled from the spec: the structured-generation service, an external
  collaborator, is a parameter: it maps the number of the attempt (from 0) and the
  budget of that attempt to an outcome.\<close>

type_synonym generation_service = "nat \<Rightarrow> nat \<Rightarrow> parse_outcome"

text \<open>Modelled from the spec: one run of the generator: the budgets of the calls it
  made, in order, and its result.\<close>

record generation_run =
  attempts :: "nat list"
  outcome :: "pipeline_error + LetterContent"

text \<open>Modelled from the spec: the generation loop (\<open>llm_letter.py\<close> is missing), with
  the number of retries that are left, the number of the attempt and its budget. A
  parsed response is the result; a response that does not parse for another reason than
  truncation is a \<open>GenerationError\<close>; a truncated response is retried with the larger
  budget while a retry is left, and is a \<open>GenerationError\<close> otherwise.\<close>

fun generate_from ::
  "generator_config \<Rightarrow> generation_service \<Rightarrow> nat \<Rightarrow> nat \<Rightarrow> nat \<Rightarrow> generation_run" where
  "generate_from cfg service 0 attempt budget =
     (case service attempt budget of
        Parsed c \<Rightarrow> \<lparr>attempts = [budget], outcome = Inr c\<rparr>
      | Unparseable \<Rightarrow> \<lparr>attempts = [budget], outcome = Inl GenerationError\<rparr>
      | Truncated \<Rightarrow> \<lparr>attempts = [budget], outcome = Inl GenerationError\<rparr>)"
| "generate_from cfg service (Suc retries) attempt budget =
     (case service attempt budget of
        Parsed c \<Rightarrow> \<lparr>attempts = [budget], outcome = Inr c\<rparr>
      | Unparseable \<Rightarrow> \<lparr>attempts = [budget], outcome = Inl GenerationError\<rparr>
      | Truncated \<Rightarrow>
          (let retry = generate_from cfg service retries (Suc attempt) (retry_budget cfg budget)
           in \<lparr>attempts = budget # attempts retry, outcome = outcome retry\<rparr>))"

text \<open>Modelled from the spec: the retry policy allows exactly one retry.\<close>

definition max_retries :: nat where
  "max_retries = 1"

text \<open>Modelled from the spec: \<open>generate\<close>, the loop started with the budget of the
  length.\<close>

definition generate :: "generator_config \<Rightarrow> generation_service \<Rightarrow> Length \<Rightarrow> generation_run" where
  "generate cfg service len = generate_from cfg service max_retries 0 (token_budget cfg len)"

subsection \<open>Sanitizer\<close>

text \<open>Modelled from the spec: the two pattern heuristics of the sanitizer
  (\<open>llm_letter.py\<close> is missing). The specification names them (a contact-block pattern:
  lines resembling an email address, a phone number or a postal-address fragment; a
  name-line) without fixing them, so they stay parameters.\<close>

record patterns =
  is_contact :: "ustring \<Rightarrow> bool"
  is_name_line :: "ustring \<Rightarrow> bool"

text \<open>Modelled from the spec: the scan from the end, which drops the trailing run of
  the paragraphs that match.\<close>

definition drop_trailing :: "('a \<Rightarrow> bool) \<Rightarrow> 'a list \<Rightarrow> 'a list" where
  "drop_trailing P xs = rev (dropWhile P (rev xs))"

text \<open>Modelled from the spec: step 1 of the sanitizer. The trailing paragraphs that
  match the contact-block pattern are dropped, and with them a single name-line
  directly above the dropped block.\<close>

definition drop_trailing_contact :: "patterns \<Rightarrow> ustring list \<Rightarrow> ustring list" where
  "drop_trailing_contact pt ps =
     (let kept = drop_trailing (is_contact pt) ps in
      if length kept < length ps \<and> kept \<noteq> [] \<and> is_name_line pt (last kept)
      then butlast kept else kept)"

text \<open>Modelled from the spec: ASCII punctuation, trimmed before lines are compared.\<close>

definition is_punct :: "nat \<Rightarrow> bool" where
  "is_punct c \<longleftrightarrow>
     (33 \<le> c \<and> c \<le> 47) \<or> (58 \<le> c \<and> c \<le> 64) \<or> (91 \<le> c \<and> c \<le> 96) \<or>
     (123 \<le> c \<and> c \<le> 126)"

text \<open>Modelled from the spec: lower case of the letters of ASCII and Latin-1, for the
  case-insensitive comparison.\<close>

definition lower :: "nat \<Rightarrow> nat" where
  "lower c = (if (65 \<le> c \<and> c \<le> 90) \<or> (192 \<le> c \<and> c \<le> 222 \<and> c \<noteq> 215) then c + 32 else c)"

text \<open>Modelled from the spec: the key under which a paragraph and a recipient line are
  compared: punctuation and whitespace trimmed from both ends, then lower case.\<close>

definition compare_key :: "ustring \<Rightarrow> ustring" where
  "compare_key s =
     map lower (rev (dropWhile (\<lambda>c. is_ws c \<or> is_punct c)
       (rev (dropWhile (\<lambda>c. is_ws c \<or> is_punct c) s))))"

text \<open>Modelled from the spec: a paragraph duplicates the recipient block when it equals
  one of its lines under that comparison.\<close>

definition duplicates_recipient :: "ustring list \<Rightarrow> ustring \<Rightarrow> bool" where
  "duplicates_recipient block p \<longleftrightarrow> compare_key p \<in> set (map compare_key block)"

text \<open>Modelled from the spec: step 2 of the sanitizer, the trailing paragraphs that
  duplicate a line of the recipient block are dropped.\<close>

definition drop_trailing_recipient :: "ustring list \<Rightarrow> ustring list \<Rightarrow> ustring list" where
  "drop_trailing_recipient block ps = drop_trailing (duplicates_recipient block) ps"

text \<open>Modelled from the spec: the separator of an address given as a single line.\<close>

definition comma :: nat where
  "comma = 44"

text \<open>Modelled from the spec: a clean line has no surrounding whitespace and no
  trailing commas.\<close>

definition strip_line :: "ustring \<Rightarrow> ustring" where
  "strip_line s = dropWhile is_ws (rev (dropWhile (\<lambda>c. is_ws c \<or> c = comma) (rev s)))"

text \<open>Modelled from the spec: the parts of a line between its separators.\<close>

fun split_on :: "nat \<Rightarrow> ustring \<Rightarrow> ustring list" where
  "split_on d [] = [[]]"
| "split_on d (c # cs) =
     (if c = d then [] # split_on d cs
      else case split_on d cs of
             [] \<Rightarrow> [[c]]
           | w # ws \<Rightarrow> (c # w) # ws)"

text \<open>Modelled from the spec: step 3 of the sanitizer (\<open>_normalize_recipient_block\<close> is
  missing). The block becomes at most 3 clean lines; an address given as a single
  comma-separated line is split into its parts.\<close>

definition normalize_recipient_block :: "ustring list \<Rightarrow> ustring list" where
  "normalize_recipient_block block =
     (let clean = filter (\<lambda>l. l \<noteq> []) (map strip_line block) in
      case clean of
        [single] \<Rightarrow> take 3 (filter (\<lambda>l. l \<noteq> []) (map strip_line (split_on comma single)))
      | _ \<Rightarrow> take 3 clean)"

text \<open>Modelled from the spec: the sanitizer, steps 1 to 3 in this order.\<close>

definition sanitize :: "patterns \<Rightarrow> LetterContent \<Rightarrow> LetterContent" where
  "sanitize pt x =
     x\<lparr>bodyParagraphs :=
         drop_trailing_recipient (recipientBlock x)
           (drop_trailing_contact pt (bodyParagraphs x)),
       recipientBlock := normalize_recipient_block (recipientBlock x)\<rparr>"

subsection \<open>Renderer\<close>

text \<open>Modelled from the spec: what a paragraph of the template holds (\<open>docx_render.py\<close>
  and \<open>template.docx\<close> are missing): static text or one of the four required
  placeholders.\<close>

datatype slot = Static | DateSlot | RecipientSlot | RoleSlot | BodySlot

text \<open>Modelled from the spec: a paragraph of the document tree: the slot it comes
  from, its tab-stop metadata (the positions of its tab stops, \<open>None\<close> when the
  paragraph has none of its own) and its text.\<close>

record para =
  slot :: slot
  tabs :: "nat list option"
  content :: ustring

text \<open>Modelled from the spec: the two ways in which the templating engine renders the
  lines of the recipient block.\<close>

datatype recipient_layout = ParagraphPerLine | SingleParagraph

text \<open>Modelled from the spec: the line break inside a paragraph.\<close>

definition line_feed :: nat where
  "line_feed = 10"

text \<open>Modelled from the spec: the tab character that moves a line to the tab stop.\<close>

definition tab_char :: nat where
  "tab_char = 9"

text \<open>Modelled from the spec: lines joined by line breaks.\<close>

fun join_lines :: "ustring list \<Rightarrow> ustring" where
  "join_lines [] = []"
| "join_lines [l] = l"
| "join_lines (l # ls) = l @ line_feed # join_lines ls"

text \<open>Modelled from the spec: the templating engine on a listing of lines. The first
  line takes the place of the placeholder in the template's paragraph; for each further
  line the engine synthesizes a paragraph, to which it does not propagate the tab
  stops. In the other layout all lines go into the template's paragraph.\<close>

fun engine_listing :: "recipient_layout \<Rightarrow> para \<Rightarrow> ustring list \<Rightarrow> para list" where
  "engine_listing ParagraphPerLine p [] = [p\<lparr>content := []\<rparr>]"
| "engine_listing ParagraphPerLine p (l # ls) =
     p\<lparr>content := l\<rparr> # map (\<lambda>l'. \<lparr>slot = slot p, tabs = None, content = l'\<rparr>) ls"
| "engine_listing SingleParagraph p ls = [p\<lparr>content := join_lines ls\<rparr>]"

text \<open>Modelled from the spec: the tab stops of the first recipient paragraph are copied
  to all recipient paragraphs.\<close>

fun copy_tab_stops :: "para list \<Rightarrow> para list" where
  "copy_tab_stops [] = []"
| "copy_tab_stops (first # rest) = first # map (\<lambda>q. q\<lparr>tabs := tabs first\<rparr>) rest"

text \<open>Modelled from the spec: a tab character is inserted after each line break.\<close>

definition tab_after_breaks :: "ustring \<Rightarrow> ustring" where
  "tab_after_breaks s = concat (map (\<lambda>c. if c = line_feed then [line_feed, tab_char] else [c]) s)"

text \<open>Modelled from the spec: the post-processing of the recipient paragraphs.\<close>

fun repair_recipient :: "para list \<Rightarrow> para list" where
  "repair_recipient [single] = [single\<lparr>content := tab_after_breaks (content single)\<rparr>]"
| "repair_recipient ps = copy_tab_stops ps"

text \<open>Modelled from the spec: the paragraphs that one paragraph of the template
  becomes.\<close>

definition fill_paragraph :: "recipient_layout \<Rightarrow> LetterContent \<Rightarrow> para \<Rightarrow> para list" where
  "fill_paragraph layout c p =
     (case slot p of
        Static \<Rightarrow> [p]
      | DateSlot \<Rightarrow> [p\<lparr>content := date c\<rparr>]
      | RecipientSlot \<Rightarrow> repair_recipient (engine_listing layout p (recipientBlock c))
      | RoleSlot \<Rightarrow> [p\<lparr>content := roleTitle c\<rparr>]
      | BodySlot \<Rightarrow> engine_listing ParagraphPerLine p (bodyParagraphs c))"

text \<open>Modelled from the spec: \<open>render\<close>. A template that lacks one of the four required
  placeholders is a \<open>RenderError\<close>, and no partial document is returned.\<close>

definition render :: "recipient_layout \<Rightarrow> para list \<Rightarrow> LetterContent \<Rightarrow> pipeline_error + para list" where
  "render layout template c =
     (if list_all (\<lambda>required. required \<in> set (map slot template))
           [DateSlot, RecipientSlot, RoleSlot, BodySlot]
      then Inr (concat (map (fill_paragraph layout c) template))
      else Inl RenderError)"

text \<open>Modelled from the spec: the recipient paragraphs of a template or of a rendered
  document.\<close>

definition recipient_paragraphs :: "para list \<Rightarrow> para list" where
  "recipient_paragraphs doc = filter (\<lambda>p. slot p = RecipientSlot) doc"


section \<open>Example inputs\<close>

definition blank_form :: "unit form_state" where
  "blank_form =
     \<lparr>apiBaseUrl = localhost_url, jobUrl = [], jobText = [], cvFile = None,
      language = De, tone = Professional,
      length_opt = Medium, targetRole = [], state = GenIdle, previewState = PrevIdle,
      downloadUrlRef = None\<rparr>"

definition form_with_url :: "unit form_state" where
  "form_with_url = blank_form\<lparr>jobUrl := lit ''https://jobs.example/1''\<rparr>"


text \<open>A URL constructor that accepts every base and appends the path to it.\<close>

definition url_under_base :: url_constructor where
  "url_under_base path base = UrlOk (base @ lit path)"

text \<open>A server that answers every generate request with the same header and blob.\<close>

definition generate_returns :: "ustring option \<Rightarrow> ustring \<Rightarrow> 'file generate_api" where
  "generate_returns h u path form = Responded h u"


definition blank_letter :: LetterContent where
  "blank_letter =
     \<lparr>date = [], recipientBlock = [], roleTitle = [], company = [], subject = [],
      salutation = [], bodyParagraphs = [], closing = [], signatureName = []\<rparr>"

text \<open>A contact pattern that takes a paragraph with an \<open>@\<close> for an email address, and
  a name-line pattern that takes a paragraph of letters and spaces that starts with a
  capital for a name.\<close>

definition email_patterns :: patterns where
  "email_patterns =
     \<lparr>is_contact = (\<lambda>s. 64 \<in> set s),
      is_name_line = (\<lambda>s. s \<noteq> [] \<and> 65 \<le> hd s \<and> hd s \<le> 90 \<and>
         list_all (\<lambda>c. c = 32 \<or> (65 \<le> c \<and> c \<le> 90) \<or> (97 \<le> c \<and> c \<le> 122)) s \<and> length s \<le> 40)\<rparr>"

definition u_umlaut :: nat where
  "u_umlaut = 252"

definition example_config :: generator_config where
  "example_config =
     \<lparr>budget_short = 600, budget_medium = 900, budget_long = 1300,
      retry_headroom = Abs_headroom 400\<rparr>"

definition always_truncated :: generation_service where
  "always_truncated attempt budget = Truncated"

text \<open>A service whose response parses once the budget reaches 1000 tokens.\<close>

definition parses_from_1000 :: generation_service where
  "parses_from_1000 attempt budget = (if 1000 \<le> budget then Parsed blank_letter else Truncated)"

definition example_template :: "para list" where
  "example_template =
     [\<lparr>slot = DateSlot, tabs = Some [5670], content = []\<rparr>,
      \<lparr>slot = RecipientSlot, tabs = Some [5670], content = []\<rparr>,
      \<lparr>slot = RoleSlot, tabs = None, content = []\<rparr>,
      \<lparr>slot = BodySlot, tabs = None, content = []\<rparr>]"

text \<open>A closing sentence, and a letter with a contact paragraph in the middle of the body
  and a signature block at its end.\<close>

definition closing_sentence :: ustring where
  "closing_sentence = lit ''I look forward to hearing from you.''"

definition letter_contact_in_middle :: LetterContent where
  "letter_contact_in_middle =
     blank_letter\<lparr>recipientBlock := [lit ''Acme AG''],
       bodyParagraphs := [lit ''Dear team,'', lit ''max@example.com'', closing_sentence,
         lit ''Max Muster'', lit ''max@example.com'']\<rparr>"

text \<open>The address of the specification's example, as a single line and as 3 lines;
  \<open>u_umlaut\<close> is the code point U+00FC.\<close>

definition acme_address_line :: ustring where
  "acme_address_line = lit ''Acme AG, Bahnhofstrasse 1, 8001 Z'' @ [u_umlaut] @ lit ''rich,''"

definition acme_address_lines :: "ustring list" where
  "acme_address_lines =
     [lit ''Acme AG'', lit ''Bahnhofstrasse 1'', lit ''8001 Z'' @ [u_umlaut] @ lit ''rich'']"

definition letter_with_address :: LetterContent where
  "letter_with_address = blank_letter\<lparr>recipientBlock := acme_address_lines\<rparr>"


section \<open>Lemmas about trimming\<close>

lemma dropWhile_snoc_keep:
  "\<not> P c \<Longrightarrow> dropWhile P (ys @ [c]) = dropWhile P ys @ [c]"
  by (induction ys) auto

lemma trim_trim: "trim (trim s) = trim s"
proof (cases "dropWhile is_ws s")
  case Nil
  have t: "trim s = []" unfolding trim_def Nil by simp
  show ?thesis unfolding t by (simp add: trim_def)
next
  case (Cons c cs)
  then have c: "\<not> is_ws c" using hd_dropWhile [of is_ws s] by auto
  then have "trim s = c # rev (dropWhile is_ws (rev cs))"
    by (simp add: trim_def Cons dropWhile_snoc_keep)
  then show ?thesis
    using c by (simp add: trim_def dropWhile_snoc_keep)
qed





section \<open>Lemmas about the filename pattern\<close>

lemma match_literal_Some_iff:
  "match_literal ps s = Some rest \<longleftrightarrow>
     (\<exists>P. s = P @ rest \<and> map canonicalize P = map canonicalize ps)"
proof (induction ps s rule: match_literal.induct)
  case (1 s)
  then show ?case by auto
next
  case (2 p ps)
  then show ?case by auto
next
  case (3 p ps c cs)
  show ?case
  proof (cases "canonicalize c = canonicalize p")
    case True
    have "(\<exists>P. c # cs = P @ rest \<and> map canonicalize P = map canonicalize (p # ps)) \<longleftrightarrow>
          (\<exists>P'. cs = P' @ rest \<and> map canonicalize P' = map canonicalize ps)"
      using True by (auto simp: Cons_eq_append_conv map_eq_Cons_conv)
    with 3 True show ?thesis by simp
  next
    case False
    then show ?thesis by (auto simp: Cons_eq_append_conv map_eq_Cons_conv)
  qed
qed

lemma quoted_run_iff:
  "takeWhile (\<lambda>c. c \<noteq> q) rest = X \<and> dropWhile (\<lambda>c. c \<noteq> q) rest \<noteq> [] \<longleftrightarrow>
     (\<exists>post. rest = X @ q # post \<and> q \<notin> set X)"
proof
  assume a: "takeWhile (\<lambda>c. c \<noteq> q) rest = X \<and> dropWhile (\<lambda>c. c \<noteq> q) rest \<noteq> []"
  then obtain d ds where d: "dropWhile (\<lambda>c. c \<noteq> q) rest = d # ds"
    by (cases "dropWhile (\<lambda>c. c \<noteq> q) rest") auto
  then have "d = q" using hd_dropWhile [of "\<lambda>c. c \<noteq> q" rest] by auto
  moreover have "rest = takeWhile (\<lambda>c. c \<noteq> q) rest @ dropWhile (\<lambda>c. c \<noteq> q) rest" by simp
  moreover have "q \<notin> set (takeWhile (\<lambda>c. c \<noteq> q) rest)"
    using set_takeWhileD by fastforce
  ultimately show "\<exists>post. rest = X @ q # post \<and> q \<notin> set X" using a d by metis
next
  assume "\<exists>post. rest = X @ q # post \<and> q \<notin> set X"
  then obtain post where r: "rest = X @ q # post" and n: "q \<notin> set X" by blast
  have "takeWhile (\<lambda>c. c \<noteq> q) (X @ q # post) = X"
    using n by (induction X) auto
  moreover have "dropWhile (\<lambda>c. c \<noteq> q) (X @ q # post) = q # post"
    using n by (induction X) auto
  ultimately show "takeWhile (\<lambda>c. c \<noteq> q) rest = X \<and> dropWhile (\<lambda>c. c \<noteq> q) rest \<noteq> []"
    using r by simp
qed

lemma match_here_Some_iff:
  "match_here s = Some X \<longleftrightarrow>
     (\<exists>P post. s = P @ X @ dquote # post \<and>
        map canonicalize P = map canonicalize filename_eq_quote \<and> X \<noteq> [] \<and> dquote \<notin> set X)"
proof
  assume m: "match_here s = Some X"
  then obtain rest where r: "match_literal filename_eq_quote s = Some rest"
    by (auto simp: match_here_def split: option.splits)
  with m have x: "takeWhile (\<lambda>c. c \<noteq> dquote) rest = X \<and> dropWhile (\<lambda>c. c \<noteq> dquote) rest \<noteq> []"
    and ne: "X \<noteq> []"
    by (auto simp: match_here_def Let_def split: if_splits)
  from x obtain post where "rest = X @ dquote # post" "dquote \<notin> set X"
    using quoted_run_iff [of dquote rest X] by blast
  moreover from r obtain P where "s = P @ rest" "map canonicalize P = map canonicalize filename_eq_quote"
    using match_literal_Some_iff by blast
  ultimately show "\<exists>P post. s = P @ X @ dquote # post \<and>
        map canonicalize P = map canonicalize filename_eq_quote \<and> X \<noteq> [] \<and> dquote \<notin> set X"
    using ne by blast
next
  assume "\<exists>P post. s = P @ X @ dquote # post \<and>
        map canonicalize P = map canonicalize filename_eq_quote \<and> X \<noteq> [] \<and> dquote \<notin> set X"
  then obtain P post where s: "s = P @ X @ dquote # post"
    and P: "map canonicalize P = map canonicalize filename_eq_quote"
    and ne: "X \<noteq> []" and nq: "dquote \<notin> set X" by blast
  have "match_literal filename_eq_quote s = Some (X @ dquote # post)"
    using s P match_literal_Some_iff by blast
  moreover have "takeWhile (\<lambda>c. c \<noteq> dquote) (X @ dquote # post) = X
      \<and> dropWhile (\<lambda>c. c \<noteq> dquote) (X @ dquote # post) \<noteq> []"
    using nq quoted_run_iff [of dquote "X @ dquote # post" X] by blast
  ultimately show "match_here s = Some X"
    using ne by (simp add: match_here_def Let_def)
qed

lemma exec_filename_None_iff:
  "exec_filename s = None \<longleftrightarrow> (\<forall>pre t. s = pre @ t \<longrightarrow> match_here t = None)"
proof (induction s)
  case Nil
  then show ?case by simp
next
  case (Cons c cs)
  have "(\<forall>pre t. c # cs = pre @ t \<longrightarrow> match_here t = None) \<longleftrightarrow>
        match_here (c # cs) = None \<and> (\<forall>pre t. cs = pre @ t \<longrightarrow> match_here t = None)"
    by (auto simp: Cons_eq_append_conv)
  with Cons show ?case by (auto split: option.splits)
qed

lemma exec_filename_skip:
  assumes "\<forall>i<length pre. match_here (drop i (pre @ t)) = None"
  shows "exec_filename (pre @ t) = exec_filename t"
  using assms
proof (induction pre)
  case Nil
  then show ?case by simp
next
  case (Cons c pre)
  from Cons.prems have h: "match_here (c # pre @ t) = None" by fastforce
  have "\<forall>i<length pre. match_here (drop i (pre @ t)) = None"
  proof (intro allI impI)
    fix i assume "i < length pre"
    then have "Suc i < length (c # pre)" by simp
    with Cons.prems have "match_here (drop (Suc i) ((c # pre) @ t)) = None" by blast
    then show "match_here (drop i (pre @ t)) = None" by simp
  qed
  with Cons.IH h show ?case by simp
qed

lemma exec_filename_here:
  "match_here s = Some X \<Longrightarrow> exec_filename s = Some X"
  by (cases s) auto

lemma exec_filename_Some_decomp:
  assumes "exec_filename s = Some X"
  shows "\<exists>pre P post. s = pre @ P @ X @ dquote # post \<and>
            map canonicalize P = map canonicalize filename_eq_quote \<and> X \<noteq> [] \<and> dquote \<notin> set X"
  using assms
proof (induction s)
  case Nil
  then have "match_here [] = Some X" by simp
  then obtain P post where "[] = P @ X @ dquote # post" 
    using match_here_Some_iff [of "[]" X] by blast
  then show ?case by simp
next
  case (Cons c cs)
  show ?case
  proof (cases "match_here (c # cs)")
    case None
    with Cons.prems have "exec_filename cs = Some X" by simp
    then obtain pre P post where "cs = pre @ P @ X @ dquote # post"
      and r: "map canonicalize P = map canonicalize filename_eq_quote" "X \<noteq> []" "dquote \<notin> set X"
      using Cons.IH by blast
    then have "c # cs = (c # pre) @ P @ X @ dquote # post" by simp
    with r show ?thesis by blast
  next
    case (Some Y)
    with Cons.prems have "Y = X" by simp
    with Some obtain P post where "c # cs = [] @ P @ X @ dquote # post"
      and r: "map canonicalize P = map canonicalize filename_eq_quote" "X \<noteq> []" "dquote \<notin> set X"
      using match_here_Some_iff [of "c # cs" X] by auto
    then show ?thesis by blast
  qed
qed

lemma exec_filename_None_no_param:
  assumes "exec_filename s = None"
  shows "\<not> (\<exists>pre P X post. s = pre @ P @ X @ dquote # post \<and>
            map canonicalize P = map canonicalize filename_eq_quote \<and> X \<noteq> [] \<and> dquote \<notin> set X)"
proof
  assume "\<exists>pre P X post. s = pre @ P @ X @ dquote # post \<and>
            map canonicalize P = map canonicalize filename_eq_quote \<and> X \<noteq> [] \<and> dquote \<notin> set X"
  then obtain pre P X post where s: "s = pre @ (P @ X @ dquote # post)"
    and r: "map canonicalize P = map canonicalize filename_eq_quote" "X \<noteq> []" "dquote \<notin> set X"
    by auto
  from r have "match_here (P @ X @ dquote # post) = Some X"
    using match_here_Some_iff by blast
  moreover from assms s have "match_here (P @ X @ dquote # post) = None"
    using exec_filename_None_iff by blast
  ultimately show False by simp
qed


section \<open>Lemmas about the sanitizer\<close>

lemma drop_trailing_take:
  "drop_trailing P xs = take (length (drop_trailing P xs)) xs"
proof -
  have "rev (dropWhile P (rev xs)) = rev (drop (length (takeWhile P (rev xs))) (rev xs))"
    by (simp add: dropWhile_eq_drop)
  also have "\<dots> = take (length xs - length (takeWhile P (rev xs))) xs"
    by (simp add: rev_drop)
  finally have e: "rev (dropWhile P (rev xs)) = take (length xs - length (takeWhile P (rev xs))) xs" .
  have "length (rev (dropWhile P (rev xs))) = length xs - length (takeWhile P (rev xs))"
    by (simp add: dropWhile_eq_drop)
  with e show ?thesis by (simp add: drop_trailing_def)
qed

lemma drop_trailing_length: "length (drop_trailing P xs) \<le> length xs"
  unfolding drop_trailing_def using length_dropWhile_le [of P "rev xs"] by simp

lemma drop_trailing_keeps:
  assumes "j < length xs" and "\<not> P (xs ! j)"
  shows "j < length (drop_trailing P xs)"
  using assms
proof (induction xs rule: rev_induct)
  case Nil
  then show ?case by simp
next
  case (snoc x xs)
  show ?case
  proof (cases "P x")
    case True
    with snoc.prems have "j < length xs"
      by (cases "j = length xs") auto
    with snoc True show ?thesis by (simp add: nth_append drop_trailing_def)
  next
    case False
    with snoc.prems show ?thesis by (simp add: drop_trailing_def)
  qed
qed

lemma take_length_take: "take (length (take n ps)) ps = take n ps"
  by (cases "n \<le> length ps") (simp_all add: min_def)

lemma butlast_take_prefix:
  assumes "kept = take (length kept) ps"
  shows "butlast kept = take (length (butlast kept)) ps"
proof -
  have "butlast kept = take (length kept - 1) kept" by (simp add: butlast_conv_take)
  also have "\<dots> = take (length kept - 1) (take (length kept) ps)" using assms by simp
  also have "\<dots> = take (length kept - 1) ps" by (simp add: min_def)
  finally have e: "butlast kept = take (length kept - 1) ps" .
  show ?thesis
    using take_length_take [of "length kept - 1" ps] unfolding e [symmetric] by simp
qed

lemma drop_trailing_contact_take:
  "drop_trailing_contact pt ps = take (length (drop_trailing_contact pt ps)) ps"
proof -
  define kept where "kept = drop_trailing (is_contact pt) ps"
  have k: "kept = take (length kept) ps" unfolding kept_def by (rule drop_trailing_take)
  then have b: "butlast kept = take (length (butlast kept)) ps" by (rule butlast_take_prefix)
  have "drop_trailing_contact pt ps = kept \<or> drop_trailing_contact pt ps = butlast kept"
    by (simp add: drop_trailing_contact_def Let_def kept_def)
  with k b show ?thesis by metis
qed

lemma drop_trailing_contact_keeps:
  assumes "j < length ps" and "\<not> is_contact pt (ps ! j)" and "\<not> is_name_line pt (ps ! j)"
  shows "j < length (drop_trailing_contact pt ps)"
proof -
  define kept where "kept = drop_trailing (is_contact pt) ps"
  have j: "j < length kept" unfolding kept_def using assms(1,2) by (rule drop_trailing_keeps)
  have k: "kept = take (length kept) ps" unfolding kept_def by (rule drop_trailing_take)
  have d: "drop_trailing_contact pt ps =
      (if length kept < length ps \<and> kept \<noteq> [] \<and> is_name_line pt (last kept) then butlast kept else kept)"
    by (simp add: drop_trailing_contact_def Let_def kept_def)
  show ?thesis
  proof (cases "length kept < length ps \<and> kept \<noteq> [] \<and> is_name_line pt (last kept)")
    case False
    with j d show ?thesis by simp
  next
    case True
    then have "last kept = kept ! (length kept - 1)" by (simp add: last_conv_nth)
    also have "\<dots> = take (length kept) ps ! (length kept - 1)" using k by simp
    also have "\<dots> = ps ! (length kept - 1)" using True by simp
    finally have "is_name_line pt (ps ! (length kept - 1))" using True by simp
    with assms(3) have "j \<noteq> length kept - 1" by auto
    with j have "j < length kept - 1" by simp
    with True d show ?thesis by simp
  qed
qed

lemma sanitize_body_take:
  "bodyParagraphs (sanitize pt x) = take (length (bodyParagraphs (sanitize pt x))) (bodyParagraphs x)"
proof -
  let ?a = "drop_trailing_contact pt (bodyParagraphs x)"
  let ?b = "drop_trailing_recipient (recipientBlock x) ?a"
  have a: "?a = take (length ?a) (bodyParagraphs x)" by (rule drop_trailing_contact_take)
  have "?b = take (length ?b) ?a"
    unfolding drop_trailing_recipient_def by (rule drop_trailing_take)
  also have "\<dots> = take (length ?b) (take (length ?a) (bodyParagraphs x))" using a by simp
  also have "\<dots> = take (min (length ?b) (length ?a)) (bodyParagraphs x)" by simp
  finally have "?b = take (min (length ?b) (length ?a)) (bodyParagraphs x)" .
  moreover have "length ?b \<le> length ?a"
    unfolding drop_trailing_recipient_def by (rule drop_trailing_length)
  ultimately have "?b = take (length ?b) (bodyParagraphs x)" by (simp add: min_def)
  then show ?thesis by (simp add: sanitize_def)
qed

lemma sanitize_body_keeps:
  assumes "j < length (bodyParagraphs x)"
    and "\<not> is_contact pt (bodyParagraphs x ! j)"
    and "\<not> is_name_line pt (bodyParagraphs x ! j)"
    and "\<not> duplicates_recipient (recipientBlock x) (bodyParagraphs x ! j)"
  shows "j < length (bodyParagraphs (sanitize pt x))"
proof -
  let ?a = "drop_trailing_contact pt (bodyParagraphs x)"
  have ja: "j < length ?a" using assms(1-3) by (rule drop_trailing_contact_keeps)
  have "?a = take (length ?a) (bodyParagraphs x)" by (rule drop_trailing_contact_take)
  then have "?a ! j = take (length ?a) (bodyParagraphs x) ! j" by simp
  also have "\<dots> = bodyParagraphs x ! j" using ja by simp
  finally have "\<not> duplicates_recipient (recipientBlock x) (?a ! j)" using assms(4) by simp
  with ja have "j < length (drop_trailing (duplicates_recipient (recipientBlock x)) ?a)"
    by (rule drop_trailing_keeps)
  then show ?thesis by (simp add: sanitize_def drop_trailing_recipient_def)
qed

text \<open>The definitions that evaluate the sanitizer on an example.\<close>

lemmas sanitize_eval =
  sanitize_def drop_trailing_contact_def drop_trailing_recipient_def drop_trailing_def
  duplicates_recipient_def compare_key_def lower_def is_punct_def is_ws_def lit_def
  email_patterns_def blank_letter_def normalize_recipient_block_def strip_line_def comma_def
  closing_sentence_def Let_def


section \<open>Lemmas about the renderer\<close>

lemma engine_listing_slot:
  "q \<in> set (engine_listing layout p ls) \<Longrightarrow> slot q = slot p"
  by (cases "(layout, p, ls)" rule: engine_listing.cases) auto

lemma copy_tab_stops_slot:
  "q \<in> set (copy_tab_stops ps) \<Longrightarrow> slot q \<in> slot ` set ps"
  by (cases ps) auto

lemma repair_recipient_slot:
  assumes "q \<in> set (repair_recipient ps)"
  shows "slot q \<in> slot ` set ps"
proof (cases ps)
  case Nil
  with assms show ?thesis by simp
next
  case (Cons first rest)
  show ?thesis
  proof (cases rest)
    case Nil
    with Cons assms show ?thesis by auto
  next
    case (Cons second more)
    with \<open>ps = first # rest\<close> assms have "q \<in> set (copy_tab_stops ps)" by simp
    then show ?thesis by (rule copy_tab_stops_slot)
  qed
qed

lemma fill_paragraph_slot:
  assumes "q \<in> set (fill_paragraph layout c p)"
  shows "slot q = slot p"
proof (cases "slot p")
  case RecipientSlot
  with assms have "q \<in> set (repair_recipient (engine_listing layout p (recipientBlock c)))"
    by (simp add: fill_paragraph_def)
  then have "slot q \<in> slot ` set (engine_listing layout p (recipientBlock c))"
    by (rule repair_recipient_slot)
  then show ?thesis using engine_listing_slot by auto
next
  case BodySlot
  with assms have "q \<in> set (engine_listing ParagraphPerLine p (bodyParagraphs c))"
    by (simp add: fill_paragraph_def)
  then show ?thesis by (rule engine_listing_slot)
qed (use assms in \<open>auto simp: fill_paragraph_def\<close>)

lemma recipient_paragraphs_fill:
  "recipient_paragraphs (fill_paragraph layout c p) =
     (if slot p = RecipientSlot then fill_paragraph layout c p else [])"
proof (cases "slot p = RecipientSlot")
  case True
  then have "\<forall>q \<in> set (fill_paragraph layout c p). slot q = RecipientSlot"
    using fill_paragraph_slot by metis
  with True show ?thesis by (simp add: recipient_paragraphs_def)
next
  case False
  then have "\<forall>q \<in> set (fill_paragraph layout c p). slot q \<noteq> RecipientSlot"
    using fill_paragraph_slot by metis
  with False show ?thesis by (simp add: recipient_paragraphs_def)
qed

lemma recipient_paragraphs_concat:
  "recipient_paragraphs (concat (map (fill_paragraph layout c) template)) =
     concat (map (fill_paragraph layout c) (recipient_paragraphs template))"
proof (induction template)
  case Nil
  then show ?case by (simp add: recipient_paragraphs_def)
next
  case (Cons p ps)
  have "recipient_paragraphs (concat (map (fill_paragraph layout c) (p # ps))) =
        recipient_paragraphs (fill_paragraph layout c p)
          @ recipient_paragraphs (concat (map (fill_paragraph layout c) ps))"
    by (simp add: recipient_paragraphs_def)
  with Cons show ?case
    by (simp add: recipient_paragraphs_fill) (simp add: recipient_paragraphs_def)
qed

lemma recipient_three_lines:
  assumes "length block = 3"
  shows "map tabs (repair_recipient (engine_listing ParagraphPerLine r block)) = [tabs r, tabs r, tabs r]
    \<and> map content (repair_recipient (engine_listing ParagraphPerLine r block)) = block"
proof -
  from assms obtain a b c where "block = [a, b, c]"
    by (cases block; cases "tl block"; cases "tl (tl block)") auto
  then show ?thesis by simp
qed


section \<open>Properties of the frontend\<close>

text \<open>C1: when the job URL and the job text are both empty after trimming,
  \<open>onGenerate\<close> sends no request: it sets the error state with the message that asks
  for a job URL or a job text, and changes nothing else.\<close>

theorem onGenerate_rejects_empty:
  assumes "trim (jobUrl st) = []" and "trim (jobText st) = []"
  shows "onGenerate new_URL api st =
           \<lparr>requests = [], revoked = [],
            after = st\<lparr>state := GenError (lit ''Please provide either a Job URL or Job Text.'')\<rparr>\<rparr>"
  using assms by (simp add: onGenerate_def)

theorem onGenerate_rejects_empty_witness:
  "requests (onGenerate url_under_base (generate_returns None (lit ''blob:1''))
      (blank_form\<lparr>jobUrl := lit ''  '', jobText := [10]\<rparr>)) = []
   \<and> state (after (onGenerate url_under_base (generate_returns None (lit ''blob:1''))
      (blank_form\<lparr>jobUrl := lit ''  '', jobText := [10]\<rparr>)))
      = GenError (lit ''Please provide either a Job URL or Job Text.'')"
proof -
  have "trim (jobUrl (blank_form\<lparr>jobUrl := lit ''  '', jobText := [10]\<rparr>)) = []"
    by (simp add: trim_def lit_def is_ws_def)
  moreover have "trim (jobText (blank_form\<lparr>jobUrl := lit ''  '', jobText := [10]\<rparr>)) = []"
    by (simp add: trim_def lit_def is_ws_def)
  ultimately show ?thesis
    using onGenerate_rejects_empty [of "blank_form\<lparr>jobUrl := lit ''  '', jobText := [10]\<rparr>"
        url_under_base "generate_returns None (lit ''blob:1'')"]
    by simp
qed




text \<open>C7, as the code has it: for a header that contains \<open>filename="X"\<close> (in any
  case of the letters of \<open>filename\<close>), with \<open>X\<close> non-empty and free of quotes, and in
  which no earlier position starts a match of the pattern,
  \<open>parseFilenameFromContentDisposition\<close> returns exactly \<open>X\<close>: the leftmost filename
  parameter wins.\<close>

theorem parseFilename_leftmost:
  assumes "X \<noteq> []" and "dquote \<notin> set X"
    and "map canonicalize P = map canonicalize filename_eq_quote"
    and "\<forall>i<length pre. match_here (drop i (pre @ P @ X @ dquote # post)) = None"
  shows "parseFilenameFromContentDisposition (Some (pre @ P @ X @ dquote # post)) = Some X"
proof -
  have "match_here (P @ X @ dquote # post) = Some X"
    using assms(1-3) match_here_Some_iff by blast
  then have "exec_filename (P @ X @ dquote # post) = Some X"
    by (rule exec_filename_here)
  with assms(4) have "exec_filename (pre @ P @ X @ dquote # post) = Some X"
    using exec_filename_skip [of pre "P @ X @ dquote # post"] by simp
  with assms(1) show ?thesis
    by (simp add: parseFilenameFromContentDisposition_def)
qed

theorem parseFilename_leftmost_witness:
  "parseFilenameFromContentDisposition
     (Some (lit ''attachment; '' @ filename_eq_quote @ lit ''foo.docx'' @ dquote # []))
   = Some (lit ''foo.docx'')"
proof -
  have a: "lit ''foo.docx'' \<noteq> []" by (simp add: lit_def)
  have b: "dquote \<notin> set (lit ''foo.docx'')" by (simp add: lit_def dquote_def)
  have d: "\<forall>i<length (lit ''attachment; '').
      match_here (drop i (lit ''attachment; '' @ filename_eq_quote @ lit ''foo.docx'' @ dquote # [])) = None"
  proof -
    have "\<forall>i\<in>{..<length (lit ''attachment; '')}.
      match_here (drop i (lit ''attachment; '' @ filename_eq_quote @ lit ''foo.docx'' @ dquote # [])) = None"
      by code_simp
    then show ?thesis by simp
  qed
  show ?thesis
    using parseFilename_leftmost [OF a b refl d] .
qed

text \<open>C7 as stated fails: a header with two filename parameters contains
  \<open>filename="b"\<close>, and the function returns \<open>a\<close>.\<close>

theorem parseFilename_second_param_counterexample:
  "parseFilenameFromContentDisposition
     (Some (filename_eq_quote @ lit ''a'' @ [dquote] @ lit ''; '' @ filename_eq_quote @ lit ''b'' @ [dquote]))
   = Some (lit ''a'') \<and> lit ''a'' \<noteq> lit ''b'' \<and> lit ''b'' \<noteq> [] \<and> dquote \<notin> set (lit ''b'')"
  by (simp add: parseFilenameFromContentDisposition_def match_here_def filename_eq_quote_def
      lit_def dquote_def canonicalize_def)

text \<open>C9: without \<open>VERCEL\<close>, and with a base URL that carries no surrounding
  whitespace, the older and the current \<open>getApiBaseUrl\<close> return the same string, and
  that string is not empty.\<close>

theorem getApiBaseUrl_agree:
  assumes "\<not> truthy (VERCEL e)"
    and "\<forall>s. NEXT_PUBLIC_API_BASE_URL e = Some s \<longrightarrow> trim s = s"
  shows "getApiBaseUrl_old e = getApiBaseUrl e \<and> getApiBaseUrl e \<noteq> []"
proof (cases "NEXT_PUBLIC_API_BASE_URL e")
  case None
  then show ?thesis
    using assms(1) by (simp add: getApiBaseUrl_old_def getApiBaseUrl_def localhost_url_def lit_def)
next
  case (Some s)
  with assms(2) have "trim s = s" by simp
  with Some assms(1) show ?thesis
    by (simp add: getApiBaseUrl_old_def getApiBaseUrl_def localhost_url_def lit_def)
qed

theorem getApiBaseUrl_agree_witness:
  "getApiBaseUrl_old \<lparr>NEXT_PUBLIC_API_BASE_URL = Some (lit ''https://api.test''), VERCEL = Some []\<rparr>
     = getApiBaseUrl \<lparr>NEXT_PUBLIC_API_BASE_URL = Some (lit ''https://api.test''), VERCEL = Some []\<rparr>
   \<and> getApiBaseUrl \<lparr>NEXT_PUBLIC_API_BASE_URL = Some (lit ''https://api.test''), VERCEL = Some []\<rparr>
     = lit ''https://api.test''"
proof -
  have t: "trim (lit ''https://api.test'') = lit ''https://api.test''"
    by (simp add: trim_def lit_def is_ws_def)
  show ?thesis
    using getApiBaseUrl_agree [of "\<lparr>NEXT_PUBLIC_API_BASE_URL = Some (lit ''https://api.test''), VERCEL = Some []\<rparr>"] t
    by (simp add: getApiBaseUrl_def lit_def)
qed

text \<open>C10: for a header that is absent, or in which no substring matches the pattern
  (\<open>filename="\<close> in any case of its letters, a non-empty run without quotes, a quote),
  \<open>parseFilenameFromContentDisposition\<close> returns null, and a generate request that was
  sent and answered ends in the state \<open>done\<close> with the filename \<open>Cover_Letter.docx\<close>.\<close>

theorem parseFilename_none_fallback:
  assumes "v = None \<or> (\<exists>s. v = Some s \<and>
      \<not> (\<exists>pre P X post. s = pre @ P @ X @ dquote # post \<and>
            map canonicalize P = map canonicalize filename_eq_quote \<and> X \<noteq> [] \<and> dquote \<notin> set X))"
    and "trim (jobUrl st) \<noteq> [] \<or> trim (jobText st) \<noteq> []"
    and "new_URL ''/v1/generate'' (apiBaseUrl st) = UrlOk url"
    and "api url (generate_form st) = Responded v u"
  shows "parseFilenameFromContentDisposition v = None
    \<and> state (after (onGenerate new_URL api st)) = GenDone u (lit ''Cover_Letter.docx'')"
proof -
  have p: "parseFilenameFromContentDisposition v = None"
  proof (cases v)
    case None
    then show ?thesis by (simp add: parseFilenameFromContentDisposition_def)
  next
    case (Some s)
    note vs = this
    with assms(1) have n: "\<not> (\<exists>pre P X post. s = pre @ P @ X @ dquote # post \<and>
            map canonicalize P = map canonicalize filename_eq_quote \<and> X \<noteq> [] \<and> dquote \<notin> set X)"
      by simp
    have "exec_filename s = None"
    proof (cases "exec_filename s")
      case None
      then show ?thesis .
    next
      case (Some X)
      from exec_filename_Some_decomp [OF Some] n show ?thesis by blast
    qed
    with vs show ?thesis by (simp add: parseFilenameFromContentDisposition_def)
  qed
  from assms(2) have "\<not> (length (trim (jobUrl st)) = 0 \<and> length (trim (jobText st)) = 0)"
    by simp
  then show ?thesis
    using p assms(3,4) by (simp add: onGenerate_def Let_def default_filename_def)
qed

theorem parseFilename_none_fallback_witness:
  "parseFilenameFromContentDisposition (Some (lit ''attachment'')) = None
   \<and> state (after (onGenerate url_under_base
        (generate_returns (Some (lit ''attachment'')) (lit ''blob:1'')) form_with_url))
       = GenDone (lit ''blob:1'') (lit ''Cover_Letter.docx'')"
proof -
  have "exec_filename (lit ''attachment'') = None"
    by (simp add: lit_def match_here_def filename_eq_quote_def canonicalize_def dquote_def)
  then have a: "Some (lit ''attachment'') = None \<or> (\<exists>s. Some (lit ''attachment'') = Some s \<and>
      \<not> (\<exists>pre P X post. s = pre @ P @ X @ dquote # post \<and>
            map canonicalize P = map canonicalize filename_eq_quote \<and> X \<noteq> [] \<and> dquote \<notin> set X))"
    using exec_filename_None_no_param by simp
  have b: "trim (jobUrl form_with_url) \<noteq> [] \<or> trim (jobText form_with_url) \<noteq> []"
    by (simp add: form_with_url_def blank_form_def trim_def lit_def is_ws_def)
  have c: "url_under_base ''/v1/generate'' (apiBaseUrl form_with_url)
      = UrlOk (apiBaseUrl form_with_url @ lit ''/v1/generate'')"
    by (simp add: url_under_base_def)
  have d: "generate_returns (Some (lit ''attachment'')) (lit ''blob:1'')
        (apiBaseUrl form_with_url @ lit ''/v1/generate'') (generate_form form_with_url)
      = Responded (Some (lit ''attachment'')) (lit ''blob:1'')"
    by (simp add: generate_returns_def)
  show ?thesis
    using parseFilename_none_fallback [of "Some (lit ''attachment'')" form_with_url
        url_under_base "apiBaseUrl form_with_url @ lit ''/v1/generate''"
        "generate_returns (Some (lit ''attachment'')) (lit ''blob:1'')" "lit ''blob:1''"] a b c d
    by blast
qed


section \<open>Properties of the letter pipeline\<close>

text \<open>C3: the sanitized body is the body's first paragraphs, in their positions and
  unchanged, so only a trailing run is removed; and every paragraph that is followed by
  a paragraph matching none of the patterns (contact, name-line, duplicate of the
  recipient block) is kept, a contact paragraph in the middle of the body among them.\<close>

theorem sanitize_removes_trailing_run_only:
  "bodyParagraphs (sanitize pt x) = take (length (bodyParagraphs (sanitize pt x))) (bodyParagraphs x)
   \<and> (i < j \<and> j < length (bodyParagraphs x)
        \<and> \<not> is_contact pt (bodyParagraphs x ! j)
        \<and> \<not> is_name_line pt (bodyParagraphs x ! j)
        \<and> \<not> duplicates_recipient (recipientBlock x) (bodyParagraphs x ! j)
      \<longrightarrow> i < length (bodyParagraphs (sanitize pt x))
          \<and> bodyParagraphs (sanitize pt x) ! i = bodyParagraphs x ! i)"
proof (intro conjI impI)
  show t: "bodyParagraphs (sanitize pt x) = take (length (bodyParagraphs (sanitize pt x))) (bodyParagraphs x)"
    by (rule sanitize_body_take)
  assume h: "i < j \<and> j < length (bodyParagraphs x)
        \<and> \<not> is_contact pt (bodyParagraphs x ! j)
        \<and> \<not> is_name_line pt (bodyParagraphs x ! j)
        \<and> \<not> duplicates_recipient (recipientBlock x) (bodyParagraphs x ! j)"
  then have "j < length (bodyParagraphs (sanitize pt x))"
    using sanitize_body_keeps by blast
  with h show i: "i < length (bodyParagraphs (sanitize pt x))" by simp
  have "bodyParagraphs (sanitize pt x) ! i
      = take (length (bodyParagraphs (sanitize pt x))) (bodyParagraphs x) ! i"
    using t by simp
  also have "\<dots> = bodyParagraphs x ! i" using i by simp
  finally show "bodyParagraphs (sanitize pt x) ! i = bodyParagraphs x ! i" .
qed

theorem sanitize_removes_trailing_run_only_witness:
  "bodyParagraphs (sanitize email_patterns letter_contact_in_middle)
     = [lit ''Dear team,'', lit ''max@example.com'', closing_sentence]
   \<and> is_contact email_patterns (bodyParagraphs letter_contact_in_middle ! 1)
   \<and> bodyParagraphs (sanitize email_patterns letter_contact_in_middle) ! 1
       = bodyParagraphs letter_contact_in_middle ! 1"
proof -
  have a: "(1::nat) < 2 \<and> 2 < length (bodyParagraphs letter_contact_in_middle)
        \<and> \<not> is_contact email_patterns (bodyParagraphs letter_contact_in_middle ! 2)
        \<and> \<not> is_name_line email_patterns (bodyParagraphs letter_contact_in_middle ! 2)
        \<and> \<not> duplicates_recipient (recipientBlock letter_contact_in_middle)
              (bodyParagraphs letter_contact_in_middle ! 2)"
    by (simp add: sanitize_eval letter_contact_in_middle_def)
  have b: "bodyParagraphs (sanitize email_patterns letter_contact_in_middle)
     = [lit ''Dear team,'', lit ''max@example.com'', closing_sentence]"
    by (simp add: sanitize_eval letter_contact_in_middle_def)
  have c: "is_contact email_patterns (bodyParagraphs letter_contact_in_middle ! 1)"
    by (simp add: sanitize_eval letter_contact_in_middle_def)
  from sanitize_removes_trailing_run_only [of email_patterns letter_contact_in_middle 1 2] a b c
  show ?thesis by blast
qed

text \<open>C4: the single line \<open>Acme AG, Bahnhofstrasse 1, 8001 Z\<dots>rich,\<close> (the city with
  U+00FC) normalizes to exactly the 3 lines \<open>Acme AG\<close>, \<open>Bahnhofstrasse 1\<close>,
  \<open>8001 Z\<dots>rich\<close>, as step 3 of \<open>sanitize\<close> on any letter with that recipient block,
  and no line ends in punctuation or whitespace.\<close>

theorem normalize_acme:
  "normalize_recipient_block [acme_address_line] = acme_address_lines
   \<and> recipientBlock (sanitize pt (x\<lparr>recipientBlock := [acme_address_line]\<rparr>)) = acme_address_lines
   \<and> length acme_address_lines = 3
   \<and> list_all (\<lambda>l. l \<noteq> [] \<and> \<not> is_punct (last l) \<and> \<not> is_ws (last l)) acme_address_lines"
proof -
  have n: "normalize_recipient_block [acme_address_line] = acme_address_lines"
    by (simp add: sanitize_eval acme_address_line_def acme_address_lines_def u_umlaut_def)
  have l: "length acme_address_lines = 3" by (simp add: acme_address_lines_def)
  have p: "list_all (\<lambda>l. l \<noteq> [] \<and> \<not> is_punct (last l) \<and> \<not> is_ws (last l)) acme_address_lines"
    by (simp add: acme_address_lines_def lit_def u_umlaut_def is_punct_def is_ws_def)
  from n l p show ?thesis by (simp add: sanitize_def)
qed

text \<open>C5: the retry's budget \<open>B'\<close> is larger than the first budget \<open>B\<close>. A first
  response truncated under \<open>B\<close> is followed by exactly one more call, with \<open>B'\<close>, and
  the result is that of the retry: a \<open>GenerationError\<close> when the retry fails to parse
  (truncated or not), with no third call, and the letter when it parses. A first
  response that fails to parse for another reason is a \<open>GenerationError\<close> after the
  one call, and a first response that parses is the result after the one call.\<close>

theorem generate_retry_policy:
  "token_budget cfg len < retry_budget cfg (token_budget cfg len)
   \<and> (service 0 (token_budget cfg len) = Truncated \<longrightarrow>
        attempts (generate cfg service len)
          = [token_budget cfg len, retry_budget cfg (token_budget cfg len)]
        \<and> (service 1 (retry_budget cfg (token_budget cfg len)) = Truncated
            \<or> service 1 (retry_budget cfg (token_budget cfg len)) = Unparseable
           \<longrightarrow> outcome (generate cfg service len) = Inl GenerationError)
        \<and> (service 1 (retry_budget cfg (token_budget cfg len)) = Parsed c
           \<longrightarrow> outcome (generate cfg service len) = Inr c))
   \<and> (service 0 (token_budget cfg len) = Unparseable \<longrightarrow>
        attempts (generate cfg service len) = [token_budget cfg len]
        \<and> outcome (generate cfg service len) = Inl GenerationError)
   \<and> (service 0 (token_budget cfg len) = Parsed c \<longrightarrow>
        attempts (generate cfg service len) = [token_budget cfg len]
        \<and> outcome (generate cfg service len) = Inr c)"
proof -
  have "0 < Rep_headroom (retry_headroom cfg)"
    using Rep_headroom [of "retry_headroom cfg"] by simp
  then have larger: "token_budget cfg len < retry_budget cfg (token_budget cfg len)"
    by (simp add: retry_budget_def)
  have unfold: "generate cfg service len
      = generate_from cfg service (Suc 0) 0 (token_budget cfg len)"
    by (simp add: generate_def max_retries_def)
  show ?thesis
  proof (cases "service 0 (token_budget cfg len)")
    case (Parsed c')
    with larger unfold show ?thesis by simp
  next
    case Truncated
    with larger unfold show ?thesis
      by (cases "service 1 (retry_budget cfg (token_budget cfg len))") (simp_all add: Let_def)
  next
    case Unparseable
    with larger unfold show ?thesis by simp
  qed
qed

theorem generate_retry_policy_witness:
  "attempts (generate example_config always_truncated Short) = [600, 1000]
   \<and> outcome (generate example_config always_truncated Short) = Inl GenerationError
   \<and> attempts (generate example_config parses_from_1000 Short) = [600, 1000]
   \<and> outcome (generate example_config parses_from_1000 Short) = Inr blank_letter"
proof -
  have b: "token_budget example_config Short = 600"
    by (simp add: example_config_def)
  have r: "retry_budget example_config 600 = 1000"
    by (simp add: retry_budget_def example_config_def Abs_headroom_inverse)
  have t: "always_truncated 0 600 = Truncated" "always_truncated 1 1000 = Truncated"
    by (simp_all add: always_truncated_def)
  have p: "parses_from_1000 0 600 = Truncated" "parses_from_1000 1 1000 = Parsed blank_letter"
    by (simp_all add: parses_from_1000_def)
  from generate_retry_policy [of example_config Short always_truncated] b r t
  have one: "attempts (generate example_config always_truncated Short) = [600, 1000]
      \<and> outcome (generate example_config always_truncated Short) = Inl GenerationError"
    by simp
  from generate_retry_policy [of example_config Short parses_from_1000 blank_letter] b r p
  have two: "attempts (generate example_config parses_from_1000 Short) = [600, 1000]
      \<and> outcome (generate example_config parses_from_1000 Short) = Inr blank_letter"
    by simp
  from one two show ?thesis by simp
qed

text \<open>C8: for a letter whose recipient block has 3 lines, rendered one paragraph per
  line into a template with one recipient paragraph, the document has 3 recipient
  paragraphs, each with the tab stops of the template's recipient paragraph, and they
  hold the 3 lines in order.\<close>

theorem render_recipient_tab_stops:
  assumes "length (recipientBlock c) = 3"
    and "recipient_paragraphs template = [r]"
    and "render ParagraphPerLine template c = Inr doc"
  shows "map tabs (recipient_paragraphs doc) = [tabs r, tabs r, tabs r]
    \<and> map content (recipient_paragraphs doc) = recipientBlock c"
proof -
  from assms(3) have d: "doc = concat (map (fill_paragraph ParagraphPerLine c) template)"
    by (simp add: render_def split: if_splits)
  have "r \<in> set (recipient_paragraphs template)" using assms(2) by simp
  then have s: "slot r = RecipientSlot" by (simp add: recipient_paragraphs_def)
  have "recipient_paragraphs doc = fill_paragraph ParagraphPerLine c r"
    using d assms(2) by (simp add: recipient_paragraphs_concat)
  also have "\<dots> = repair_recipient (engine_listing ParagraphPerLine r (recipientBlock c))"
    using s by (simp add: fill_paragraph_def)
  finally show ?thesis using recipient_three_lines [OF assms(1)] by simp
qed

theorem render_recipient_tab_stops_witness:
  "(\<exists>doc. render ParagraphPerLine example_template letter_with_address = Inr doc
      \<and> map tabs (recipient_paragraphs doc) = [Some [5670], Some [5670], Some [5670]]
      \<and> map content (recipient_paragraphs doc) = acme_address_lines)"
proof -
  have l: "length (recipientBlock letter_with_address) = 3"
    by (simp add: letter_with_address_def blank_letter_def acme_address_lines_def)
  have t: "recipient_paragraphs example_template = [\<lparr>slot = RecipientSlot, tabs = Some [5670], content = []\<rparr>]"
    by (simp add: recipient_paragraphs_def example_template_def)
  obtain doc where d: "render ParagraphPerLine example_template letter_with_address = Inr doc"
    by (simp add: render_def example_template_def)
  have b: "recipientBlock letter_with_address = acme_address_lines"
    by (simp add: letter_with_address_def blank_letter_def)
  from render_recipient_tab_stops [OF l t d] b d show ?thesis by simp
qed

end
